theory Spec2Isabelle
  imports Main
begin

section \<open>Listening-port discovery of the tunnel service\<close>

text \<open>
  A shallow embedding of \<^verbatim>\<open>ExtHostTunnelService\<close>
  (\<^verbatim>\<open>src/vs/workbench/api/node/extHostTunnelService.ts\<close>): the methods
  \<^verbatim>\<open>loadConnectionTable\<close>, \<^verbatim>\<open>loadListeningPorts\<close>, \<^verbatim>\<open>getSockets\<close> and
  \<^verbatim>\<open>$findCandidatePorts\<close>, together with the parts of the JavaScript library they call.

  A JavaScript string is a \<^typ>\<open>string\<close>; a \<^typ>\<open>char\<close> stands for a UTF-16 code unit
  below 256. A thrown exception is the left summand of the result type.
\<close>

subsection \<open>Values of the JavaScript runtime\<close>

datatype error = TypeError

text \<open>
  The numbers \<^verbatim>\<open>parseInt\<close> can return: \<^verbatim>\<open>NaN\<close>, a signed integer (the flag is the sign
  bit, so \<open>Num True 0\<close> is \<^verbatim>\<open>-0\<close>), or a signed infinity.
\<close>

datatype number = NaN | Num bool nat | Infinity bool

text \<open>
  Numbers used as keys. A \<^verbatim>\<open>Map\<close> compares keys by SameValueZero (\<^verbatim>\<open>NaN\<close> equals itself,
  \<^verbatim>\<open>-0\<close> is stored as \<^verbatim>\<open>+0\<close>); a number used as a property name is converted to a string,
  which is injective on numbers except that both zeros give \<^verbatim>\<open>"0"\<close>. In both cases the
  key is the number with the sign of zero dropped.
\<close>

fun key_of :: "number \<Rightarrow> number" where
  "key_of (Num s n) = (if n = 0 then Num False 0 else Num s n)"
| "key_of x = x"

definition LF :: char where
  "LF = CHR 0x0A"

text \<open>\<^verbatim>\<open>WhiteSpace\<close> and \<^verbatim>\<open>LineTerminator\<close> code units below 256: what \<^verbatim>\<open>trim\<close> removes and
  what \<^verbatim>\<open>\s\<close> matches.\<close>

definition is_ws :: "char \<Rightarrow> bool" where
  "is_ws c = (of_char c \<in> set [9, 10, 11, 12, 13, 32, 160 :: nat])"

definition is_line_terminator :: "char \<Rightarrow> bool" where
  "is_line_terminator c = (of_char c \<in> set [10, 13 :: nat])"

definition is_digit :: "char \<Rightarrow> bool" where
  "is_digit c = (48 \<le> (of_char c :: nat) \<and> (of_char c :: nat) \<le> 57)"

definition is_letter :: "char \<Rightarrow> bool" where
  "is_letter c = ((65 \<le> (of_char c :: nat) \<and> (of_char c :: nat) \<le> 90)
     \<or> (97 \<le> (of_char c :: nat) \<and> (of_char c :: nat) \<le> 122))"

text \<open>\<^verbatim>\<open>String.prototype.trim\<close>.\<close>

definition trim :: "string \<Rightarrow> string" where
  "trim s = rev (dropWhile is_ws (rev (dropWhile is_ws s)))"

text \<open>\<^verbatim>\<open>s.split(d)\<close> for a one-character separator: never empty, \<^verbatim>\<open>''.split(d)\<close> is
  \<^verbatim>\<open>['']\<close>.\<close>

fun split_on :: "char \<Rightarrow> string \<Rightarrow> string list" where
  "split_on d [] = [[]]"
| "split_on d (c # cs) =
     (let r = split_on d cs in if c = d then [] # r else (c # hd r) # tl r)"

text \<open>\<^verbatim>\<open>s.split(/\s+/)\<close>: a separator is a maximal run of white space.\<close>

function split_ws :: "string \<Rightarrow> string list" where
  "split_ws [] = [[]]"
| "split_ws (c # cs) =
     (if is_ws c then [] # split_ws (dropWhile is_ws cs)
      else let r = split_ws cs in (c # hd r) # tl r)"
  by pat_completeness auto
termination
  by (relation "measure length") (auto simp: le_imp_less_Suc length_dropWhile_le)

fun strip_prefix :: "string \<Rightarrow> string \<Rightarrow> string option" where
  "strip_prefix [] s = Some s"
| "strip_prefix (p # ps) [] = None"
| "strip_prefix (p # ps) (c # cs) = (if p = c then strip_prefix ps cs else None)"

definition starts_with :: "string \<Rightarrow> string \<Rightarrow> bool" where
  "starts_with p s = (strip_prefix p s \<noteq> None)"

text \<open>\<^verbatim>\<open>s.indexOf(p) !== -1\<close>.\<close>

fun contains :: "string \<Rightarrow> string \<Rightarrow> bool" where
  "contains p [] = starts_with p []"
| "contains p (c # cs) = (starts_with p (c # cs) \<or> contains p cs)"

text \<open>The decimal digits of an array index used as a property name.\<close>

definition digit_char :: "nat \<Rightarrow> char" where
  "digit_char d = ''0123456789'' ! d"

fun index_key :: "nat \<Rightarrow> string" where
  "index_key n =
     (if n < 10 then [digit_char n] else index_key (n div 10) @ [digit_char (n mod 10)])"

text \<open>The conversion of a possibly undefined string to a string.\<close>

definition to_string :: "string option \<Rightarrow> string" where
  "to_string v = (case v of None \<Rightarrow> ''undefined'' | Some s \<Rightarrow> s)"

subsection \<open>\<^verbatim>\<open>parseInt\<close>\<close>

text \<open>The value of a digit in bases up to 36.\<close>

definition digit_value :: "char \<Rightarrow> nat option" where
  "digit_value c =
     (let n = (of_char c :: nat) in
      if 48 \<le> n \<and> n \<le> 57 then Some (n - 48)
      else if 97 \<le> n \<and> n \<le> 122 then Some (n - 87)
      else if 65 \<le> n \<and> n \<le> 90 then Some (n - 55)
      else None)"

definition is_radix_digit :: "nat \<Rightarrow> char \<Rightarrow> bool" where
  "is_radix_digit R c = (case digit_value c of None \<Rightarrow> False | Some v \<Rightarrow> v < R)"

definition digits_value :: "nat \<Rightarrow> string \<Rightarrow> nat" where
  "digits_value R z = foldl (\<lambda>acc c. acc * R + the (digit_value c)) 0 z"

fun bits :: "nat \<Rightarrow> nat" where
  "bits n = (if n = 0 then 0 else Suc (bits (n div 2)))"

text \<open>
  The double nearest to a natural number (ties to even); \<open>None\<close> when the number rounds
  to infinity. A number of at most 53 bits is exact; a longer one keeps its leading 53
  bits \<open>q\<close>, rounded up when the rest \<open>r\<close> is more than half a unit, or half a unit
  and \<open>q\<close> is odd; a result of more than 1024 bits is beyond the largest double.
\<close>

definition round_double :: "nat \<Rightarrow> nat option" where
  "round_double n =
     (if bits n \<le> 53 then Some n
      else let e = bits n - 53; q = n div 2 ^ e; r = n mod 2 ^ e; h = 2 ^ (e - 1);
               q' = (if h < r \<or> (r = h \<and> odd q) then q + 1 else q);
               v = q' * 2 ^ e
           in if 1024 < bits v then None else Some v)"

text \<open>
  \<^verbatim>\<open>parseInt(str, R)\<close> for the radixes 10 and 16 of the source: leading white space is
  skipped, a sign is read, for radix 16 a \<^verbatim>\<open>0x\<close> prefix is skipped, and the longest prefix of
  radix-\<open>R\<close> digits is the value; no digit gives \<^verbatim>\<open>NaN\<close>.
\<close>

definition parseInt :: "string \<Rightarrow> nat \<Rightarrow> number" where
  "parseInt str R =
     (let s = dropWhile is_ws str;
          neg = starts_with ''-'' s;
          s1 = (if starts_with ''+'' s \<or> starts_with ''-'' s then tl s else s);
          s2 = (if R = 16 \<and> (starts_with ''0x'' s1 \<or> starts_with ''0X'' s1) then drop 2 s1 else s1);
          z = takeWhile (is_radix_digit R) s2
      in if z = [] then NaN
         else (case round_double (digits_value R z) of
                 None \<Rightarrow> Infinity neg
               | Some v \<Rightarrow> Num neg v))"

subsection \<open>The data of the service\<close>

text \<open>
  The object types of the source. Field names are prefixed where two of the source's
  types share a name: a connection is \<^verbatim>\<open>{ socket, ip, port }\<close>, a socket
  \<^verbatim>\<open>{ pid, socket }\<close>, a process \<^verbatim>\<open>{ pid, cwd, cmd }\<close>, a candidate \<^verbatim>\<open>{ port, detail }\<close>.
\<close>

record connection =
  conn_socket :: number
  conn_ip :: string
  conn_port :: number

record socket =
  sock_pid :: number
  sock_socket :: number

record process =
  proc_pid :: number
  proc_cwd :: string
  proc_cmd :: string

record candidate =
  port :: number
  detail :: string

text \<open>A row of a connection table: \<^verbatim>\<open>Record<string, string>\<close>.\<close>

type_synonym row = "string \<rightharpoonup> string"

text \<open>\<^verbatim>\<open>xs.map(f)\<close> for an \<open>f\<close> that may throw: the first exception ends the call.\<close>

fun map_throw :: "('a \<Rightarrow> error + 'b) \<Rightarrow> 'a list \<Rightarrow> error + 'b list" where
  "map_throw f [] = Inr []"
| "map_throw f (x # xs) =
     (case f x of
        Inl e \<Rightarrow> Inl e
      | Inr y \<Rightarrow> (case map_throw f xs of Inl e \<Rightarrow> Inl e | Inr ys \<Rightarrow> Inr (y # ys)))"

subsection \<open>\<^verbatim>\<open>loadConnectionTable\<close>\<close>

text \<open>
  \<^verbatim>\<open>obj[key] = value\<close> on an object literal. The name \<^verbatim>\<open>__proto__\<close> is the accessor of
  \<^verbatim>\<open>Object.prototype\<close>, whose setter ignores a string: no property is created.
\<close>

definition set_property :: "row \<Rightarrow> string \<Rightarrow> string \<Rightarrow> row" where
  "set_property obj k v = (if k = ''__proto__'' then obj else obj(k \<mapsto> v))"

text \<open>\<^verbatim>\<open>names[i] || i\<close>: the name of column \<open>i\<close>, or the index where there is no name or
  the name is the empty string.\<close>

definition column_key :: "string list \<Rightarrow> nat \<Rightarrow> string" where
  "column_key names i =
     (if i < length names \<and> names ! i \<noteq> [] then names ! i else index_key i)"

text \<open>The \<^verbatim>\<open>reduce\<close> over the values of one line, from index \<open>i\<close> on.\<close>

fun reduce_row :: "string list \<Rightarrow> row \<Rightarrow> nat \<Rightarrow> string list \<Rightarrow> row" where
  "reduce_row names obj i [] = obj"
| "reduce_row names obj i (v # vs) =
     reduce_row names (set_property obj (column_key names i) v) (Suc i) vs"

definition header_names :: "string \<Rightarrow> string list" where
  "header_names line =
     filter (\<lambda>name. name \<noteq> ''rx_queue'' \<and> name \<noteq> ''tm->when'') (split_ws (trim line))"

definition loadConnectionTable :: "string \<Rightarrow> row list" where
  "loadConnectionTable stdout =
     (let lines = split_on LF (trim stdout);
          names = header_names (hd lines)
      in map (\<lambda>line. reduce_row names Map.empty 0 (split_ws (trim line))) (tl lines))"

subsection \<open>\<^verbatim>\<open>loadListeningPorts\<close>\<close>

text \<open>\<^verbatim>\<open>new Map(pairs)\<close> as the list of its entries in insertion order: setting a key that
  is present replaces the value where it stands.\<close>

fun map_set :: "(number \<times> 'v) list \<Rightarrow> number \<Rightarrow> 'v \<Rightarrow> (number \<times> 'v) list" where
  "map_set [] k v = [(k, v)]"
| "map_set ((k', v') # m) k v =
     (if k' = k then (k, v) # m else (k', v') # map_set m k v)"

definition new_Map :: "(number \<times> 'v) list \<Rightarrow> (number \<times> 'v) list" where
  "new_Map pairs = foldl (\<lambda>m (k, v). map_set m (key_of k) v) [] pairs"

definition map_values :: "(number \<times> 'v) list \<Rightarrow> 'v list" where
  "map_values m = map snd m"

text \<open>The callback of the first \<^verbatim>\<open>map\<close>: \<^verbatim>\<open>row.local_address.split\<close> throws when the row
  has no such column.\<close>

definition to_connection :: "row \<Rightarrow> error + connection" where
  "to_connection row =
     (case row ''local_address'' of
        None \<Rightarrow> Inl TypeError
      | Some a \<Rightarrow>
          let address = split_on (CHR '':'') a
          in Inr \<lparr> conn_socket = parseInt (to_string (row ''inode'')) 10,
                   conn_ip = hd address,
                   conn_port = parseInt (to_string (if 1 < length address then Some (address ! 1) else None)) 16 \<rparr>)"

text \<open>The listening rows of all tables, as connections, before they are put in the
  \<^verbatim>\<open>Map\<close>.\<close>

definition listeningRecords :: "string list \<Rightarrow> error + connection list" where
  "listeningRecords stdouts =
     (let table = concat (map loadConnectionTable stdouts)
      in map_throw to_connection (filter (\<lambda>row. row ''st'' = Some ''0A'') table))"

definition loadListeningPorts :: "string list \<Rightarrow> error + connection list" where
  "loadListeningPorts stdouts =
     (case listeningRecords stdouts of
        Inl e \<Rightarrow> Inl e
      | Inr ports \<Rightarrow> Inr (map_values (new_Map (map (\<lambda>port. (conn_port port, port)) ports))))"

subsection \<open>\<^verbatim>\<open>getSockets\<close>\<close>

text \<open>
  A match of \<^verbatim>\<open>/\/proc\/(\d+)\/fd\/\d+ -> socket:\[(\d+)\]/\<close> at the start of a string, as
  its two groups. Each \<^verbatim>\<open>\d+\<close> is followed by a character that is no digit, so it takes
  the whole run of digits.
\<close>

definition match_socket_at :: "string \<Rightarrow> (string \<times> string) option" where
  "match_socket_at s =
     (case strip_prefix ''/proc/'' s of
        None \<Rightarrow> None
      | Some s1 \<Rightarrow>
          if takeWhile is_digit s1 = [] then None
          else (case strip_prefix ''/fd/'' (dropWhile is_digit s1) of
            None \<Rightarrow> None
          | Some s2 \<Rightarrow>
              if takeWhile is_digit s2 = [] then None
              else (case strip_prefix '' -> socket:['' (dropWhile is_digit s2) of
                None \<Rightarrow> None
              | Some s3 \<Rightarrow>
                  if takeWhile is_digit s3 = [] then None
                  else (case strip_prefix '']'' (dropWhile is_digit s3) of
                    None \<Rightarrow> None
                  | Some _ \<Rightarrow> Some (takeWhile is_digit s1, takeWhile is_digit s3)))))"

text \<open>\<^verbatim>\<open>regex.exec(line)\<close>: the leftmost match, or \<open>None\<close> for \<^verbatim>\<open>null\<close>.\<close>

fun exec_socket :: "string \<Rightarrow> (string \<times> string) option" where
  "exec_socket [] = match_socket_at []"
| "exec_socket (c # cs) =
     (case match_socket_at (c # cs) of Some m \<Rightarrow> Some m | None \<Rightarrow> exec_socket cs)"

text \<open>The callback of \<^verbatim>\<open>lines.map\<close>: \<^verbatim>\<open>match[1]\<close> throws when \<^verbatim>\<open>match\<close> is \<^verbatim>\<open>null\<close>.\<close>

definition to_socket :: "string \<Rightarrow> error + socket" where
  "to_socket line =
     (case exec_socket line of
        None \<Rightarrow> Inl TypeError
      | Some (g1, g2) \<Rightarrow> Inr \<lparr> sock_pid = parseInt g1 10, sock_socket = parseInt g2 10 \<rparr>)"

definition getSockets :: "string \<Rightarrow> error + socket list" where
  "getSockets stdout = map_throw to_socket (split_on LF (trim stdout))"

subsection \<open>\<^verbatim>\<open>$findCandidatePorts\<close>\<close>

text \<open>
  \<^verbatim>\<open>command.match('.*\.vscode\-server\-[a-zA-Z]+\/bin.*')\<close>. The string literal drops
  the backslashes, so the pattern is \<^verbatim>\<open>.*.vscode-server-[a-zA-Z]+/bin.*\<close>: anywhere in the
  command, one character that is no line terminator, then \<^verbatim>\<open>vscode-server-\<close>, a run of
  letters, and \<^verbatim>\<open>/bin\<close>.
\<close>

definition agent_dir_at :: "string \<Rightarrow> bool" where
  "agent_dir_at s =
     (case s of
        [] \<Rightarrow> False
      | c # r \<Rightarrow>
          \<not> is_line_terminator c \<and>
          (case strip_prefix ''vscode-server-'' r of
             None \<Rightarrow> False
           | Some r1 \<Rightarrow>
               takeWhile is_letter r1 \<noteq> [] \<and> starts_with ''/bin'' (dropWhile is_letter r1)))"

fun matches_agent_dir :: "string \<Rightarrow> bool" where
  "matches_agent_dir [] = False"
| "matches_agent_dir (c # cs) = (agent_dir_at (c # cs) \<or> matches_agent_dir cs)"

text \<open>The negation of the condition under which a port is pushed.\<close>

definition excluded :: "string \<Rightarrow> bool" where
  "excluded command = (matches_agent_dir command \<or> contains ''out/vs/server/main.js'' command)"

text \<open>
  What the method takes from its host: the platform flag \<^verbatim>\<open>isLinux\<close>, the contents of
  \<^verbatim>\<open>/proc/net/tcp\<close> and \<^verbatim>\<open>/proc/net/tcp6\<close> (the two reads are taken to succeed), the
  \<^verbatim>\<open>stdout\<close> that the callback of \<^verbatim>\<open>exec\<close> resolves (whatever its \<^verbatim>\<open>error\<close>), and the
  list \<^verbatim>\<open>processes\<close> as the scan of \<^verbatim>\<open>/proc\<close> leaves it: the body of that loop is inside
  \<^verbatim>\<open>try\<close> and \<^verbatim>\<open>catch\<close>, so an entry that cannot be read is missing from the list and
  nothing is thrown.
\<close>

record host =
  isLinux :: bool
  tcp :: string
  tcp6 :: string
  procSockets :: string
  processes :: "process list"

definition socketMap_of :: "socket list \<Rightarrow> (number \<rightharpoonup> socket)" where
  "socketMap_of sockets = foldl (\<lambda>m socket. m(key_of (sock_socket socket) \<mapsto> socket)) Map.empty sockets"

definition processMap_of :: "process list \<Rightarrow> (number \<rightharpoonup> process)" where
  "processMap_of ps = foldl (\<lambda>m process. m(key_of (proc_pid process) \<mapsto> process)) Map.empty ps"

text \<open>The body of the \<^verbatim>\<open>forEach\<close>: reading \<^verbatim>\<open>.pid\<close> or \<^verbatim>\<open>.cmd\<close> of \<^verbatim>\<open>undefined\<close> throws.\<close>

definition push_port ::
  "(number \<rightharpoonup> socket) \<Rightarrow> (number \<rightharpoonup> process) \<Rightarrow> candidate list \<Rightarrow> connection \<Rightarrow> error + candidate list" where
  "push_port socketMap processMap ports c =
     (case socketMap (key_of (conn_socket c)) of
        None \<Rightarrow> Inl TypeError
      | Some so \<Rightarrow>
          (case processMap (key_of (sock_pid so)) of
             None \<Rightarrow> Inl TypeError
           | Some p \<Rightarrow>
               if \<not> matches_agent_dir (proc_cmd p)
                  \<and> \<not> contains ''out/vs/server/main.js'' (proc_cmd p)
               then Inr (ports @ [\<lparr> port = conn_port c, detail = proc_cmd p \<rparr>])
               else Inr ports))"

fun forEach_push ::
  "(number \<rightharpoonup> socket) \<Rightarrow> (number \<rightharpoonup> process) \<Rightarrow> candidate list \<Rightarrow> connection list \<Rightarrow> error + candidate list" where
  "forEach_push socketMap processMap ports [] = Inr ports"
| "forEach_push socketMap processMap ports (c # cs) =
     (case push_port socketMap processMap ports c of
        Inl e \<Rightarrow> Inl e
      | Inr ports' \<Rightarrow> forEach_push socketMap processMap ports' cs)"

definition findCandidatePorts :: "host \<Rightarrow> error + candidate list" where
  "findCandidatePorts h =
     (if \<not> isLinux h then Inr []
      else (case loadListeningPorts [tcp h, tcp6 h] of
        Inl e \<Rightarrow> Inl e
      | Inr connections \<Rightarrow>
          (case getSockets (procSockets h) of
             Inl e \<Rightarrow> Inl e
           | Inr sockets \<Rightarrow>
               let socketMap = socketMap_of sockets;
                   processMap = processMap_of (processes h)
               in forEach_push socketMap processMap []
                    (filter (\<lambda>connection. socketMap (key_of (conn_socket connection)) \<noteq> None) connections))))"

subsection \<open>Notions used to state the properties\<close>

text \<open>The command line \<^verbatim>\<open>processMap[socketMap[socket].pid].cmd\<close> of a connection, where
  both look-ups find an entry.\<close>

definition resolved_command ::
  "(number \<rightharpoonup> socket) \<Rightarrow> (number \<rightharpoonup> process) \<Rightarrow> connection \<Rightarrow> string option" where
  "resolved_command socketMap processMap c =
     (case socketMap (key_of (conn_socket c)) of
        None \<Rightarrow> None
      | Some so \<Rightarrow>
          (case processMap (key_of (sock_pid so)) of
             None \<Rightarrow> None
           | Some p \<Rightarrow> Some (proc_cmd p)))"

text \<open>The \<^verbatim>\<open>Map\<close> of \<^verbatim>\<open>loadListeningPorts\<close>, as a function of the listening records.\<close>

definition dedup :: "connection list \<Rightarrow> connection list" where
  "dedup ports = map_values (new_Map (map (\<lambda>port. (conn_port port, port)) ports))"

subsection \<open>Concrete hosts\<close>

text \<open>The header and one row of \<^verbatim>\<open>/proc/net/tcp\<close> and of \<^verbatim>\<open>/proc/net/tcp6\<close>, in the
  layout of the kernel: local address \<^verbatim>\<open>127.0.0.1:8080\<close> (\<^verbatim>\<open>[::]:8080\<close>), state \<^verbatim>\<open>0A\<close>,
  inode 12345 (12346).\<close>

definition tcp_header :: string where
  "tcp_header = ''  sl  local_address rem_address   st tx_queue rx_queue tr tm->when retrnsmt   uid  timeout inode''"

definition tcp_row :: string where
  "tcp_row = ''   0: 0100007F:1F90 00000000:0000 0A 00000000:00000000 00:00000000 00000000  1000        0 12345 1 0000000000000000 100 0 0 10 0''"

definition tcp6_header :: string where
  "tcp6_header = ''  sl  local_address                         remote_address                        st tx_queue rx_queue tr tm->when retrnsmt   uid  timeout inode''"

definition tcp6_row :: string where
  "tcp6_row = ''   0: 00000000000000000000000000000000:1F90 00000000000000000000000000000000:0000 0A 00000000:00000000 00:00000000 00000000  1000        0 12346 1 0000000000000000 100 0 0 10 0''"

definition tcp_A :: string where
  "tcp_A = tcp_header @ [LF] @ tcp_row @ [LF]"

definition tcp6_empty :: string where
  "tcp6_empty = tcp6_header @ [LF]"

definition tcp6_D :: string where
  "tcp6_D = tcp6_header @ [LF] @ tcp6_row @ [LF]"

text \<open>Lines of \<^verbatim>\<open>ls -l /proc/[0-9]*/fd/[0-9]* | grep socket:\<close>; the last is a descriptor
  of a file whose name contains \<^verbatim>\<open>socket:\<close>.\<close>

definition ls_42 :: string where
  "ls_42 = ''lrwx------ 1 user user 64 Nov  3 03:11 /proc/42/fd/3 -> socket:[12345]''"

definition ls_43 :: string where
  "ls_43 = ''lrwx------ 1 user user 64 Nov  3 03:11 /proc/43/fd/4 -> socket:[12346]''"

definition ls_file :: string where
  "ls_file = ''l-wx------ 1 user user 64 Nov  3 03:11 /proc/42/fd/5 -> /tmp/socket:log''"

definition ls_A :: string where
  "ls_A = ls_42 @ [LF]"

definition ls_D :: string where
  "ls_D = ls_42 @ [LF] @ ls_43 @ [LF]"

definition ls_mixed :: string where
  "ls_mixed = ls_42 @ [LF] @ ls_file @ [LF]"

definition myserver :: process where
  "myserver = \<lparr> proc_pid = Num False 42, proc_cwd = ''/home/user'',
     proc_cmd = ''/usr/bin/myserver --port 8080'' \<rparr>"

definition httpserver :: process where
  "httpserver = \<lparr> proc_pid = Num False 43, proc_cwd = ''/home/user'',
     proc_cmd = ''/usr/bin/python3 -m http.server 8080'' \<rparr>"

definition agent :: process where
  "agent = \<lparr> proc_pid = Num False 42, proc_cwd = ''/home/user'',
     proc_cmd = ''/home/user/.vscode-server/bin/0a1b2c/node /home/user/.vscode-server/bin/0a1b2c/out/vs/server/main.js --port=0'' \<rparr>"

definition conn_v4 :: connection where
  "conn_v4 = \<lparr> conn_socket = Num False 12345, conn_ip = ''0100007F'', conn_port = Num False 8080 \<rparr>"

definition conn_v6 :: connection where
  "conn_v6 = \<lparr> conn_socket = Num False 12346, conn_ip = ''00000000000000000000000000000000'',
     conn_port = Num False 8080 \<rparr>"

definition sock_42 :: socket where
  "sock_42 = \<lparr> sock_pid = Num False 42, sock_socket = Num False 12345 \<rparr>"

definition sock_43 :: socket where
  "sock_43 = \<lparr> sock_pid = Num False 43, sock_socket = Num False 12346 \<rparr>"

text \<open>Scenario A: one listening socket, owned by a server of the user.\<close>

definition host_A :: host where
  "host_A = \<lparr> isLinux = True, tcp = tcp_A, tcp6 = tcp6_empty, procSockets = ls_A,
     processes = [myserver] \<rparr>"

text \<open>Scenario B: the socket is owned by the remote agent's own server.\<close>

definition host_B :: host where
  "host_B = \<lparr> isLinux = True, tcp = tcp_A, tcp6 = tcp6_empty, procSockets = ls_A,
     processes = [agent] \<rparr>"

text \<open>Scenario D: two listening sockets on port 8080, owned by two processes.\<close>

definition host_D :: host where
  "host_D = \<lparr> isLinux = True, tcp = tcp_A, tcp6 = tcp6_D, procSockets = ls_D,
     processes = [myserver, httpserver] \<rparr>"

text \<open>Two listening sockets on port 8080; only the first, of the IPv4 table, has an
  owner in the listing of descriptors.\<close>

definition host_shadow :: host where
  "host_shadow = \<lparr> isLinux = True, tcp = tcp_A, tcp6 = tcp6_D, procSockets = ls_A,
     processes = [myserver] \<rparr>"

text \<open>The \<^verbatim>\<open>ls | grep\<close> command printed nothing.\<close>

definition host_no_sockets :: host where
  "host_no_sockets = \<lparr> isLinux = True, tcp = tcp_A, tcp6 = tcp6_empty, procSockets = [],
     processes = [myserver] \<rparr>"

text \<open>Process 42 owns the socket but is not among the scanned processes (it exited
  before the scan, or its directory could not be read); another process is.\<close>

definition host_vanished :: host where
  "host_vanished = \<lparr> isLinux = True, tcp = tcp_A, tcp6 = tcp6_empty, procSockets = ls_A,
     processes = [httpserver] \<rparr>"

text \<open>A table whose rows have more and fewer fields than its header has names, and a
  table whose header names the columns in another order, between the two names that are
  removed.\<close>

definition table_ragged :: string where
  "table_ragged = ''local_address st inode'' @ [LF] @ ''0100007F:1F90 0A 12345 1'' @ [LF]
     @ ''0100007F:0016 0A''"

definition table_reordered :: string where
  "table_reordered = ''inode rx_queue st tm->when local_address'' @ [LF] @ ''12345 0A 0100007F:1F90''"

subsection \<open>Simplification\<close>

text \<open>The two recursions on numbers are unfolded on numerals only.\<close>

declare index_key.simps [simp del]

declare bits.simps [simp del]

subsection \<open>Numbers and strings\<close>

lemma bits_le_iff: "bits n \<le> k \<longleftrightarrow> n < 2 ^ k"
proof (induction n arbitrary: k rule: bits.induct)
  case (1 n)
  show ?case
  proof (cases "n = 0")
    case True
    then show ?thesis by (simp add: bits.simps)
  next
    case False
    show ?thesis
    proof (cases k)
      case 0
      with False show ?thesis by (simp add: bits.simps)
    next
      case (Suc k')
      have "bits n \<le> Suc k' \<longleftrightarrow> bits (n div 2) \<le> k'"
        using False by (subst bits.simps) simp
      also have "\<dots> \<longleftrightarrow> n div 2 < 2 ^ k'"
        using False by (rule "1.IH")
      also have "\<dots> \<longleftrightarrow> n < 2 ^ Suc k'"
        by (simp add: div_less_iff_less_mult mult.commute)
      finally show ?thesis using Suc by simp
    qed
  qed
qed

lemma strip_prefix_append: "strip_prefix p (p @ s) = Some s"
  by (induction p) auto

lemma starts_with_append: "starts_with p (p @ s)"
  by (simp add: starts_with_def strip_prefix_append)

lemma contains_append: "contains p (pre @ p @ post)"
proof (induction pre)
  case Nil
  show ?case using starts_with_append [of p post] by (cases "p @ post") auto
next
  case (Cons c pre)
  then show ?case by simp
qed

lemma agent_dir_at_literal:
  assumes "ls \<noteq> []" "\<forall>c \<in> set ls. is_letter c"
  shows "agent_dir_at (''.vscode-server-'' @ ls @ ''/bin'' @ post)"
proof -
  have nl: "\<not> is_letter CHR ''/''" by (simp add: is_letter_def)
  have "takeWhile is_letter (ls @ ''/bin'' @ post) = ls"
    using assms(2) nl by (simp add: takeWhile_append2)
  moreover have "dropWhile is_letter (ls @ ''/bin'' @ post) = ''/bin'' @ post"
    using assms(2) nl by (simp add: dropWhile_append2)
  moreover have "strip_prefix ''vscode-server-'' (''vscode-server-'' @ ls @ ''/bin'' @ post)
      = Some (ls @ ''/bin'' @ post)"
    by (rule strip_prefix_append)
  ultimately show ?thesis
    using assms(1) starts_with_append [of "''/bin''" post]
    by (simp add: agent_dir_at_def is_line_terminator_def)
qed

lemma matches_agent_dir_literal:
  assumes "ls \<noteq> []" "\<forall>c \<in> set ls. is_letter c"
  shows "matches_agent_dir (pre @ ''.vscode-server-'' @ ls @ ''/bin'' @ post)"
proof (induction pre)
  case Nil
  have "agent_dir_at (''.vscode-server-'' @ ls @ ''/bin'' @ post)"
    using assms by (rule agent_dir_at_literal)
  then show ?case by simp
next
  case (Cons c pre)
  then show ?case by simp
qed

subsection \<open>The \<^verbatim>\<open>Map\<close> of ports\<close>

lemma key_of_idem: "key_of (key_of x) = key_of x"
  by (cases x) auto

lemma map_of_map_set: "map_of (map_set m k v) = (map_of m)(k \<mapsto> v)"
  by (induction m) (auto simp: fun_eq_iff)

lemma keys_map_set: "fst ` set (map_set m k v) = insert k (fst ` set m)"
proof (induction m)
  case Nil
  then show ?case by simp
next
  case (Cons a m)
  then show ?case by (cases a) (simp add: insert_commute)
qed

lemma distinct_map_set: "distinct (map fst m) \<Longrightarrow> distinct (map fst (map_set m k v))"
proof (induction m)
  case Nil
  then show ?case by simp
next
  case (Cons a m)
  obtain k' v' where a: "a = (k', v')" by (cases a)
  show ?case
  proof (cases "k' = k")
    case True
    with Cons.prems a show ?thesis by simp
  next
    case False
    have "k' \<notin> fst ` set (map_set m k v)"
      using Cons.prems a False by (simp add: keys_map_set)
    with Cons a False show ?thesis by simp
  qed
qed

lemma set_map_set: "set (map_set m k v) \<subseteq> insert (k, v) (set m)"
  by (induction m) (auto split: if_splits)

lemma distinct_foldl_map_set:
  "distinct (map fst m) \<Longrightarrow> distinct (map fst (foldl (\<lambda>m (k, v). map_set m (key_of k) v) m pairs))"
  by (induction pairs arbitrary: m) (auto simp: distinct_map_set split: prod.splits)

lemma set_foldl_map_set:
  "set (foldl (\<lambda>m (k, v). map_set m (key_of k) v) m pairs) \<subseteq> set m \<union> (\<lambda>(k, v). (key_of k, v)) ` set pairs"
proof (induction pairs arbitrary: m)
  case Nil
  then show ?case by simp
next
  case (Cons a pairs)
  obtain k v where a: "a = (k, v)" by (cases a)
  have "set (foldl (\<lambda>m (k, v). map_set m (key_of k) v) (map_set m (key_of k) v) pairs)
      \<subseteq> set (map_set m (key_of k) v) \<union> (\<lambda>(k, v). (key_of k, v)) ` set pairs"
    by (rule Cons.IH)
  with set_map_set [of m "key_of k" v] a show ?case by auto
qed

lemma map_of_foldl_map_set:
  "map_of (foldl (\<lambda>m (k, v). map_set m (key_of k) v) m pairs) = foldl (\<lambda>f (k, v). f(key_of k \<mapsto> v)) (map_of m) pairs"
  by (induction pairs arbitrary: m) (auto simp: map_of_map_set split: prod.splits)

lemma foldl_upd_other:
  "\<forall>(k', v') \<in> set post. key_of k' \<noteq> k \<Longrightarrow>
   foldl (\<lambda>f (k, v). f(key_of k \<mapsto> v)) f post k = f k"
  by (induction post arbitrary: f) (auto split: prod.splits)

lemma distinct_new_Map: "distinct (map fst (new_Map pairs))"
  unfolding new_Map_def by (rule distinct_foldl_map_set) simp

lemma set_new_Map: "set (new_Map pairs) \<subseteq> (\<lambda>(k, v). (key_of k, v)) ` set pairs"
  unfolding new_Map_def using set_foldl_map_set [of "[]" pairs] by simp

lemma new_Map_last:
  assumes "pairs = pre @ (k, v) # post" "\<forall>(k', v') \<in> set post. key_of k' \<noteq> key_of k"
  shows "map_of (new_Map pairs) (key_of k) = Some v"
  unfolding new_Map_def map_of_foldl_map_set assms(1)
  using assms(2) by (simp add: foldl_upd_other)

lemma dedup_entries:
  "(k, c) \<in> set (new_Map (map (\<lambda>port. (conn_port port, port)) ports)) \<Longrightarrow>
     k = key_of (conn_port c) \<and> c \<in> set ports"
  using set_new_Map [of "map (\<lambda>port. (conn_port port, port)) ports"] by auto

lemma dedup_keys:
  "map (\<lambda>c. key_of (conn_port c)) (dedup ports)
     = map fst (new_Map (map (\<lambda>port. (conn_port port, port)) ports))"
  unfolding dedup_def map_values_def using dedup_entries [of _ _ ports]
  by (auto simp: map_eq_conv)

lemma distinct_dedup: "distinct (map (\<lambda>c. key_of (conn_port c)) (dedup ports))"
  by (simp add: dedup_keys distinct_new_Map)

lemma set_dedup: "set (dedup ports) \<subseteq> set ports"
  unfolding dedup_def map_values_def using dedup_entries [of _ _ ports] by auto

lemma dedup_last:
  assumes "ports = pre @ r # post"
    "\<forall>x \<in> set post. key_of (conn_port x) \<noteq> key_of (conn_port r)"
  shows "r \<in> set (dedup ports)"
proof -
  have "map_of (new_Map (map (\<lambda>port. (conn_port port, port)) ports)) (key_of (conn_port r)) = Some r"
    by (rule new_Map_last [where pre = "map (\<lambda>port. (conn_port port, port)) pre"
          and post = "map (\<lambda>port. (conn_port port, port)) post"])
       (use assms in auto)
  then have "(key_of (conn_port r), r) \<in> set (new_Map (map (\<lambda>port. (conn_port port, port)) ports))"
    by (rule map_of_SomeD)
  then show ?thesis unfolding dedup_def map_values_def by force
qed

lemma loadListeningPorts_dedup:
  "loadListeningPorts stdouts = Inr conns \<longleftrightarrow>
     (\<exists>recs. listeningRecords stdouts = Inr recs \<and> conns = dedup recs)"
  by (auto simp: loadListeningPorts_def dedup_def split: sum.splits)

lemma forEach_push_Inr:
  "forEach_push sm pm acc cs = Inr ps \<Longrightarrow>
     (\<forall>c \<in> set cs. resolved_command sm pm c \<noteq> None) \<and>
     ps = acc @ map (\<lambda>c. \<lparr> port = conn_port c, detail = the (resolved_command sm pm c) \<rparr>)
                  (filter (\<lambda>c. \<not> excluded (the (resolved_command sm pm c))) cs)"
proof (induction cs arbitrary: acc)
  case Nil
  then show ?case by simp
next
  case (Cons c cs)
  from Cons.prems obtain acc' where
    step: "push_port sm pm acc c = Inr acc'" and rest: "forEach_push sm pm acc' cs = Inr ps"
    by (auto split: sum.splits)
  from step have res: "resolved_command sm pm c \<noteq> None"
    and acc': "acc' = (if excluded (the (resolved_command sm pm c)) then acc
                       else acc @ [\<lparr> port = conn_port c, detail = the (resolved_command sm pm c) \<rparr>])"
    by (auto simp: push_port_def resolved_command_def excluded_def split: option.splits if_splits)
  from Cons.IH [OF rest] res acc' show ?case by auto
qed

lemma findCandidatePorts_Inr:
  assumes "findCandidatePorts h = Inr ps" "isLinux h"
  obtains conns sockets where
    "loadListeningPorts [tcp h, tcp6 h] = Inr conns"
    "getSockets (procSockets h) = Inr sockets"
    "ps = map (\<lambda>c. \<lparr> port = conn_port c,
                       detail = the (resolved_command (socketMap_of sockets) (processMap_of (processes h)) c) \<rparr>)
            (filter (\<lambda>c. \<not> excluded (the (resolved_command (socketMap_of sockets) (processMap_of (processes h)) c)))
               (filter (\<lambda>c. socketMap_of sockets (key_of (conn_socket c)) \<noteq> None) conns))"
proof -
  from assms obtain conns where conns: "loadListeningPorts [tcp h, tcp6 h] = Inr conns"
    by (auto simp: findCandidatePorts_def split: sum.splits)
  from assms conns obtain sockets where sockets: "getSockets (procSockets h) = Inr sockets"
    by (auto simp: findCandidatePorts_def split: sum.splits)
  from assms conns sockets have
    "forEach_push (socketMap_of sockets) (processMap_of (processes h)) []
       (filter (\<lambda>c. socketMap_of sockets (key_of (conn_socket c)) \<noteq> None) conns) = Inr ps"
    by (simp add: findCandidatePorts_def Let_def)
  from forEach_push_Inr [OF this] conns sockets that show thesis
    by simp
qed

lemma distinct_ports:
  assumes "findCandidatePorts h = Inr ps"
  shows "distinct (map (\<lambda>c. key_of (port c)) ps)"
proof (cases "isLinux h")
  case False
  with assms show ?thesis by (simp add: findCandidatePorts_def)
next
  case True
  from assms True obtain conns sockets where
    conns: "loadListeningPorts [tcp h, tcp6 h] = Inr conns" and
    ps: "ps = map (\<lambda>c. \<lparr> port = conn_port c,
                       detail = the (resolved_command (socketMap_of sockets) (processMap_of (processes h)) c) \<rparr>)
            (filter (\<lambda>c. \<not> excluded (the (resolved_command (socketMap_of sockets) (processMap_of (processes h)) c)))
               (filter (\<lambda>c. socketMap_of sockets (key_of (conn_socket c)) \<noteq> None) conns))"
    by (rule findCandidatePorts_Inr)
  from conns obtain recs where "conns = dedup recs"
    by (auto simp: loadListeningPorts_dedup)
  then have "distinct (map (\<lambda>c. key_of (conn_port c)) conns)"
    by (simp add: distinct_dedup)
  then show ?thesis
    unfolding ps by (simp add: o_def distinct_map_filter)
qed

subsection \<open>Rows of a connection table\<close>

lemma split_on_not_Nil: "split_on d s \<noteq> []"
  by (induction s) (auto simp: Let_def)

lemma split_ws_not_Nil: "split_ws s \<noteq> []"
  by (induction s rule: split_ws.induct) (auto simp: Let_def)

lemma reduce_row_other:
  "\<forall>k < length vs. column_key names (i + k) \<noteq> key \<Longrightarrow>
     reduce_row names obj i vs key = obj key"
proof (induction vs arbitrary: obj i)
  case Nil
  then show ?case by simp
next
  case (Cons v vs)
  have "\<forall>k < length vs. column_key names (Suc i + k) \<noteq> key"
    using Cons.prems by (auto dest: spec [of _ "Suc k" for k])
  from Cons.IH [OF this] have
    "reduce_row names (set_property obj (column_key names i) v) (Suc i) vs key
       = set_property obj (column_key names i) v key" .
  moreover have "column_key names i \<noteq> key"
    using Cons.prems by (auto dest: spec [of _ 0])
  ultimately show ?case by (simp add: set_property_def)
qed

lemma reduce_row_value:
  "j < length vs \<Longrightarrow> column_key names (i + j) = key \<Longrightarrow> key \<noteq> ''__proto__'' \<Longrightarrow>
   \<forall>k. j < k \<and> k < length vs \<longrightarrow> column_key names (i + k) \<noteq> key \<Longrightarrow>
     reduce_row names obj i vs key = Some (vs ! j)"
proof (induction vs arbitrary: obj i j)
  case Nil
  then show ?case by simp
next
  case (Cons v vs)
  show ?case
  proof (cases j)
    case 0
    have "\<forall>k < length vs. column_key names (Suc i + k) \<noteq> key"
      using Cons.prems(4) 0 by (auto dest: spec [of _ "Suc k" for k])
    from reduce_row_other [OF this] Cons.prems(2,3) 0 show ?thesis
      by (simp add: set_property_def)
  next
    case (Suc j')
    have "reduce_row names (set_property obj (column_key names i) v) (Suc i) vs key = Some (vs ! j')"
    proof (rule Cons.IH)
      show "j' < length vs" using Cons.prems(1) Suc by simp
      show "column_key names (Suc i + j') = key" using Cons.prems(2) Suc by simp
      show "key \<noteq> ''__proto__''" by fact
      show "\<forall>k. j' < k \<and> k < length vs \<longrightarrow> column_key names (Suc i + k) \<noteq> key"
        using Cons.prems(4) Suc by (auto dest: spec [of _ "Suc k" for k])
    qed
    with Suc show ?thesis by simp
  qed
qed

lemma reduce_row_dom_mono: "obj key \<noteq> None \<Longrightarrow> reduce_row names obj i vs key \<noteq> None"
  by (induction vs arbitrary: obj i) (auto simp: set_property_def)

lemma reduce_row_dom:
  "j < length vs \<Longrightarrow> column_key names (i + j) \<noteq> ''__proto__'' \<Longrightarrow>
     reduce_row names obj i vs (column_key names (i + j)) \<noteq> None"
proof (induction vs arbitrary: obj i j)
  case Nil
  then show ?case by simp
next
  case (Cons v vs)
  show ?case
  proof (cases j)
    case 0
    have "reduce_row names (set_property obj (column_key names i) v) (Suc i) vs (column_key names i) \<noteq> None"
      using Cons.prems(2) 0 by (intro reduce_row_dom_mono) (simp add: set_property_def)
    with 0 show ?thesis by simp
  next
    case (Suc j')
    with Cons.prems Cons.IH [of j' "Suc i"] show ?thesis by simp
  qed
qed

lemma reduce_row_dom_only:
  "reduce_row names obj i vs key \<noteq> None \<Longrightarrow>
     obj key \<noteq> None \<or> (\<exists>j < length vs. key = column_key names (i + j))"
proof (induction vs arbitrary: obj i)
  case Nil
  then show ?case by simp
next
  case (Cons v vs)
  from Cons.IH [of "set_property obj (column_key names i) v" "Suc i"] Cons.prems
  have "set_property obj (column_key names i) v key \<noteq> None
      \<or> (\<exists>j < length vs. key = column_key names (Suc i + j))"
    by simp
  then show ?case
  proof
    assume "set_property obj (column_key names i) v key \<noteq> None"
    then have "obj key \<noteq> None \<or> key = column_key names (i + 0)"
      by (auto simp: set_property_def split: if_splits)
    then show ?thesis by auto
  next
    assume "\<exists>j < length vs. key = column_key names (Suc i + j)"
    then obtain j where "j < length vs" "key = column_key names (i + Suc j)" by auto
    then have "Suc j < length (v # vs) \<and> key = column_key names (i + Suc j)" by simp
    then show ?thesis by blast
  qed
qed

lemma index_key_digits: "set (index_key n) \<subseteq> set ''0123456789''"
proof (induction n rule: index_key.induct)
  case (1 n)
  have d: "\<And>k. k < 10 \<Longrightarrow> digit_char k \<in> set ''0123456789''"
    unfolding digit_char_def by (rule nth_mem) simp
  show ?case
  proof (cases "n < 10")
    case True
    then show ?thesis using d [of n] by (subst index_key.simps) simp
  next
    case False
    with 1 have "set (index_key (n div 10)) \<subseteq> set ''0123456789''" by simp
    moreover have "digit_char (n mod 10) \<in> set ''0123456789''" by (rule d) simp
    ultimately show ?thesis using False by (subst index_key.simps) simp
  qed
qed

lemma index_key_not_proto: "index_key n \<noteq> ''__proto__''"
proof
  assume "index_key n = ''__proto__''"
  with index_key_digits [of n] show False by simp
qed

lemma length_loadConnectionTable:
  "length (loadConnectionTable stdout) = length (split_on LF (trim stdout)) - 1"
  by (simp add: loadConnectionTable_def Let_def)

lemma nth_loadConnectionTable:
  "i < length (tl (split_on LF (trim stdout))) \<Longrightarrow>
     loadConnectionTable stdout ! i
       = reduce_row (header_names (hd (split_on LF (trim stdout)))) Map.empty 0
           (split_ws (trim (tl (split_on LF (trim stdout)) ! i)))"
  by (simp add: loadConnectionTable_def Let_def)

lemma reduce_row_map_of:
  assumes "distinct names" "[] \<notin> set names" "''__proto__'' \<notin> set names"
    "length vs = length names"
  shows "reduce_row names Map.empty 0 vs = map_of (zip names vs)"
proof
  fix key
  have ck: "column_key names k = names ! k" if "k < length names" for k
  proof -
    from that have "names ! k \<in> set names" by (rule nth_mem)
    with assms(2) have "names ! k \<noteq> []" by metis
    with that show ?thesis by (simp add: column_key_def)
  qed
  show "reduce_row names Map.empty 0 vs key = map_of (zip names vs) key"
  proof (cases "key \<in> set names")
    case True
    then obtain j where j: "j < length names" "names ! j = key"
      by (auto simp: in_set_conv_nth)
    have "reduce_row names Map.empty 0 vs key = Some (vs ! j)"
    proof (rule reduce_row_value)
      show "j < length vs" using j assms(4) by simp
      show "column_key names (0 + j) = key" using j ck by simp
      show "key \<noteq> ''__proto__''" using True assms(3) by auto
      show "\<forall>k. j < k \<and> k < length vs \<longrightarrow> column_key names (0 + k) \<noteq> key"
        using j assms(1,4) ck by (auto simp: nth_eq_iff_index_eq)
    qed
    moreover have "map_of (zip names vs) key = Some (vs ! j)"
      using j assms(1,4) map_of_zip_nth [of names vs j] by simp
    ultimately show ?thesis by simp
  next
    case False
    have "reduce_row names Map.empty 0 vs key = Map.empty key"
    proof (rule reduce_row_other)
      show "\<forall>k<length vs. column_key names (0 + k) \<noteq> key"
        using False assms(4) ck by auto
    qed
    moreover have "map_of (zip names vs) key = None"
      using False assms(4) by (simp add: map_of_zip_is_None)
    ultimately show ?thesis by simp
  qed
qed

lemma reduce_row_reorder:
  assumes "distinct names" "[] \<notin> set names" "''__proto__'' \<notin> set names"
    "length vs = length names" "distinct names'" "length vs' = length names'"
    "set (zip names' vs') = set (zip names vs)"
  shows "reduce_row names' Map.empty 0 vs' = reduce_row names Map.empty 0 vs"
proof -
  have "fst ` set (zip names' vs') = fst ` set (zip names vs)"
    using assms(7) by simp
  then have s: "set names' = set names"
    using assms(4,6) by (simp flip: set_map)
  have "map_of (zip names' vs') = map_of (zip names vs)"
    using assms by (simp add: map_of_inject_set)
  with assms s show ?thesis by (simp add: reduce_row_map_of)
qed

subsection \<open>The listening records of two tables\<close>

lemma map_throw_append:
  "map_throw f (xs @ ys) =
     (case map_throw f xs of
        Inl e \<Rightarrow> Inl e
      | Inr r \<Rightarrow> (case map_throw f ys of Inl e \<Rightarrow> Inl e | Inr r' \<Rightarrow> Inr (r @ r')))"
  by (induction xs) (auto split: sum.splits)

lemma listeningRecords_tables:
  assumes "listeningRecords [a] = Inr ra" "listeningRecords [b] = Inr rb"
  shows "listeningRecords [a, b] = Inr (ra @ rb)"
  using assms by (simp add: listeningRecords_def map_throw_append)

subsection \<open>Lines of the socket enumeration\<close>

lemma map_throw_Inr:
  "map_throw f xs = Inr ys \<Longrightarrow> list_all2 (\<lambda>x y. f x = Inr y) xs ys"
  by (induction xs arbitrary: ys) (auto split: sum.splits)

lemma getSockets_all_lines:
  assumes "getSockets stdout = Inr sockets"
  shows "length sockets = length (split_on LF (trim stdout))"
    and "\<forall>line \<in> set (split_on LF (trim stdout)). exec_socket line \<noteq> None"
proof -
  from assms have l: "list_all2 (\<lambda>x y. to_socket x = Inr y) (split_on LF (trim stdout)) sockets"
    by (simp add: getSockets_def map_throw_Inr)
  then show "length sockets = length (split_on LF (trim stdout))"
    by (simp add: list_all2_lengthD)
  show "\<forall>line \<in> set (split_on LF (trim stdout)). exec_socket line \<noteq> None"
  proof
    fix line
    assume "line \<in> set (split_on LF (trim stdout))"
    with l obtain y where "to_socket line = Inr y"
      by (auto simp: list_all2_conv_all_nth in_set_conv_nth)
    then show "exec_socket line \<noteq> None"
      by (auto simp: to_socket_def split: option.splits)
  qed
qed

subsection \<open>Evaluation of the concrete hosts\<close>

lemmas js_defs = index_key.simps bits.simps LF_def digit_char_def is_ws_def is_line_terminator_def is_digit_def
  is_letter_def trim_def starts_with_def to_string_def digit_value_def is_radix_digit_def
  digits_value_def round_double_def parseInt_def Let_def

lemmas table_defs = set_property_def column_key_def header_names_def loadConnectionTable_def
  to_connection_def listeningRecords_def

lemma listeningRecords_tcp_A: "listeningRecords [tcp_A] = Inr [conn_v4]"
  by (simp add: tcp_A_def tcp_header_def tcp_row_def conn_v4_def js_defs table_defs)

lemma listeningRecords_tcp6_empty: "listeningRecords [tcp6_empty] = Inr []"
  by (simp add: tcp6_empty_def tcp6_header_def js_defs table_defs)

lemma listeningRecords_tcp6_D: "listeningRecords [tcp6_D] = Inr [conn_v6]"
  by (simp add: tcp6_D_def tcp6_header_def tcp6_row_def conn_v6_def js_defs table_defs)

lemma listeningRecords_A: "listeningRecords [tcp_A, tcp6_empty] = Inr [conn_v4]"
  using listeningRecords_tables [OF listeningRecords_tcp_A listeningRecords_tcp6_empty] by simp

lemma listeningRecords_D: "listeningRecords [tcp_A, tcp6_D] = Inr [conn_v4, conn_v6]"
  using listeningRecords_tables [OF listeningRecords_tcp_A listeningRecords_tcp6_D] by simp

lemma loadListeningPorts_A: "loadListeningPorts [tcp_A, tcp6_empty] = Inr [conn_v4]"
  by (simp add: loadListeningPorts_def listeningRecords_A new_Map_def map_values_def conn_v4_def)

lemma loadListeningPorts_D: "loadListeningPorts [tcp_A, tcp6_D] = Inr [conn_v6]"
  by (simp add: loadListeningPorts_def listeningRecords_D new_Map_def map_values_def
      conn_v4_def conn_v6_def)

lemma getSockets_A: "getSockets ls_A = Inr [sock_42]"
  by (simp add: ls_A_def ls_42_def sock_42_def getSockets_def to_socket_def match_socket_at_def
      js_defs)

lemma getSockets_D: "getSockets ls_D = Inr [sock_42, sock_43]"
  by (simp add: ls_D_def ls_42_def ls_43_def sock_42_def sock_43_def getSockets_def to_socket_def
      match_socket_at_def js_defs)

lemma excluded_myserver: "\<not> excluded (proc_cmd myserver)"
  by (simp add: myserver_def excluded_def agent_dir_at_def js_defs)

lemma excluded_httpserver: "\<not> excluded (proc_cmd httpserver)"
  by (simp add: httpserver_def excluded_def agent_dir_at_def js_defs)

lemma excluded_agent: "excluded (proc_cmd agent)"
  by (simp add: agent_def excluded_def agent_dir_at_def js_defs)

lemmas host_defs = socketMap_of_def processMap_of_def push_port_def findCandidatePorts_def
  conn_v4_def conn_v6_def sock_42_def sock_43_def

lemma names_tcp_A:
  "header_names (hd (split_on LF (trim tcp_A)))
     = [''sl'', ''local_address'', ''rem_address'', ''st'', ''tx_queue'', ''tr'', ''retrnsmt'',
        ''uid'', ''timeout'', ''inode'']"
  by (simp add: tcp_A_def tcp_header_def tcp_row_def header_names_def js_defs)

lemma fields_tcp_A:
  "map (\<lambda>line. split_ws (trim line)) (tl (split_on LF (trim tcp_A)))
     = [[''0:'', ''0100007F:1F90'', ''00000000:0000'', ''0A'', ''00000000:00000000'',
         ''00:00000000'', ''00000000'', ''1000'', ''0'', ''12345'', ''1'', ''0000000000000000'',
         ''100'', ''0'', ''0'', ''10'', ''0'']]"
  by (simp add: tcp_A_def tcp_header_def tcp_row_def js_defs)

lemma names_reordered:
  "filter (\<lambda>name. name \<noteq> ''rx_queue'' \<and> name \<noteq> ''tm->when'')
     (split_ws (trim (hd (split_on LF (trim table_reordered)))))
     = [''inode'', ''st'', ''local_address'']"
  by (simp add: table_reordered_def js_defs)

lemma fields_reordered:
  "map (\<lambda>line. split_ws (trim line)) (tl (split_on LF (trim table_reordered)))
     = [[''12345'', ''0A'', ''0100007F:1F90'']]"
  by (simp add: table_reordered_def js_defs)

lemma listeningRecords_reordered: "listeningRecords [table_reordered] = Inr [conn_v4]"
  by (simp add: table_reordered_def conn_v4_def js_defs table_defs)

subsection \<open>The candidates returned\<close>

lemma port_absent:
  assumes res: "findCandidatePorts h = Inr ps"
    and conns: "loadListeningPorts [tcp h, tcp6 h] = Inr conns"
    and sockets: "getSockets (procSockets h) = Inr sockets"
    and c: "c \<in> set conns"
    and bad: "socketMap_of sockets (key_of (conn_socket c)) = None \<or>
       excluded (the (resolved_command (socketMap_of sockets) (processMap_of (processes h)) c))"
  shows "key_of (conn_port c) \<notin> set (map (\<lambda>e. key_of (port e)) ps)"
proof (cases "isLinux h")
  case False
  with res show ?thesis by (simp add: findCandidatePorts_def)
next
  case True
  let ?sm = "socketMap_of sockets" and ?pm = "processMap_of (processes h)"
  from res True conns sockets have
    ps: "ps = map (\<lambda>c. \<lparr> port = conn_port c, detail = the (resolved_command ?sm ?pm c) \<rparr>)
            (filter (\<lambda>c. \<not> excluded (the (resolved_command ?sm ?pm c)))
               (filter (\<lambda>c. ?sm (key_of (conn_socket c)) \<noteq> None) conns))"
    by (auto elim!: findCandidatePorts_Inr)
  from conns obtain recs where "conns = dedup recs"
    by (auto simp: loadListeningPorts_dedup)
  then have "distinct (map (\<lambda>c. key_of (conn_port c)) conns)"
    by (simp add: distinct_dedup)
  then have inj: "inj_on (\<lambda>c. key_of (conn_port c)) (set conns)"
    by (simp add: distinct_map)
  show ?thesis
  proof
    assume "key_of (conn_port c) \<in> set (map (\<lambda>e. key_of (port e)) ps)"
    then obtain c' where c': "c' \<in> set conns" "?sm (key_of (conn_socket c')) \<noteq> None"
        "\<not> excluded (the (resolved_command ?sm ?pm c'))"
        "key_of (conn_port c') = key_of (conn_port c)"
      unfolding ps by auto
    from inj c'(1) c c'(4) have "c' = c" by (auto dest: inj_onD)
    with c'(2,3) bad show False by simp
  qed
qed

lemma port_present:
  assumes res: "findCandidatePorts h = Inr ps" and linux: "isLinux h"
    and conns: "loadListeningPorts [tcp h, tcp6 h] = Inr conns"
    and sockets: "getSockets (procSockets h) = Inr sockets"
    and c: "c \<in> set conns"
    and good: "resolved_command (socketMap_of sockets) (processMap_of (processes h)) c = Some command"
      "\<not> excluded command"
  shows "\<lparr> port = conn_port c, detail = command \<rparr> \<in> set ps"
proof -
  let ?sm = "socketMap_of sockets" and ?pm = "processMap_of (processes h)"
  from res linux conns sockets have
    ps: "ps = map (\<lambda>c. \<lparr> port = conn_port c, detail = the (resolved_command ?sm ?pm c) \<rparr>)
            (filter (\<lambda>c. \<not> excluded (the (resolved_command ?sm ?pm c)))
               (filter (\<lambda>c. ?sm (key_of (conn_socket c)) \<noteq> None) conns))"
    by (auto elim!: findCandidatePorts_Inr)
  from good(1) have "?sm (key_of (conn_socket c)) \<noteq> None"
    by (auto simp: resolved_command_def split: option.splits)
  with c good show ?thesis unfolding ps by (auto simp: image_iff intro!: bexI [of _ c])
qed

lemma distinct_count_one:
  "distinct (map f xs) \<Longrightarrow> x \<in> set xs \<Longrightarrow> length (filter (\<lambda>y. f y = f x) xs) = 1"
proof (induction xs)
  case Nil
  then show ?case by simp
next
  case (Cons a xs)
  show ?case
  proof (cases "x = a")
    case True
    with Cons.prems have "filter (\<lambda>y. f y = f x) xs = []"
      by (auto simp: filter_empty_conv image_iff)
    with True show ?thesis by simp
  next
    case False
    with Cons.prems have "x \<in> set xs" "f a \<noteq> f x" by auto
    with Cons show ?thesis by simp
  qed
qed



lemma findCandidatePorts_D:
  "findCandidatePorts host_D
     = Inr [\<lparr> port = Num False 8080, detail = ''/usr/bin/python3 -m http.server 8080'' \<rparr>]"
  using excluded_httpserver
  by (simp add: host_D_def loadListeningPorts_D getSockets_D host_defs excluded_def
      myserver_def)
     (simp add: httpserver_def)

lemma findCandidatePorts_B: "findCandidatePorts host_B = Inr []"
  using excluded_agent
  by (simp add: host_B_def loadListeningPorts_A getSockets_A host_defs excluded_def)
     (simp add: agent_def)

lemma unowned_record_dropped:
  assumes "findCandidatePorts h = Inr ps"
    and "loadListeningPorts [tcp h, tcp6 h] = Inr conns"
    and "getSockets (procSockets h) = Inr sockets"
    and "c \<in> set conns"
    and "socketMap_of sockets (key_of (conn_socket c)) = None"
  shows "key_of (conn_port c) \<notin> set (map (\<lambda>e. key_of (port e)) ps)"
  using assms(1-4) by (rule port_absent) (simp add: assms(5))

text \<open>When the method returns: on another platform than Linux, or when both parsers
  return and every connection that passes the filter has an owner with a process entry.\<close>

lemma forEach_push_returns_iff:
  "(\<exists>ps. forEach_push sm pm acc cs = Inr ps) \<longleftrightarrow>
     (\<forall>c \<in> set cs. resolved_command sm pm c \<noteq> None)"
proof (induction cs arbitrary: acc)
  case Nil
  then show ?case by simp
next
  case (Cons c cs)
  show ?case
  proof (cases "resolved_command sm pm c")
    case None
    then have "push_port sm pm acc c = Inl TypeError"
      by (auto simp: push_port_def resolved_command_def split: option.splits)
    with None show ?thesis by simp
  next
    case (Some command)
    then have "\<exists>acc'. push_port sm pm acc c = Inr acc'"
      by (auto simp: push_port_def resolved_command_def split: option.splits)
    then obtain acc' where "push_port sm pm acc c = Inr acc'" ..
    with Some Cons.IH [of acc'] show ?thesis by simp
  qed
qed

lemma findCandidatePorts_returns_iff:
  "(\<exists>ps. findCandidatePorts h = Inr ps) \<longleftrightarrow>
     \<not> isLinux h \<or>
     (\<exists>conns sockets.
        loadListeningPorts [tcp h, tcp6 h] = Inr conns \<and>
        getSockets (procSockets h) = Inr sockets \<and>
        (\<forall>c \<in> set conns. socketMap_of sockets (key_of (conn_socket c)) \<noteq> None \<longrightarrow>
           resolved_command (socketMap_of sockets) (processMap_of (processes h)) c \<noteq> None))"
proof (cases "isLinux h")
  case False
  then show ?thesis by (simp add: findCandidatePorts_def)
next
  case True
  show ?thesis
  proof (cases "loadListeningPorts [tcp h, tcp6 h]")
    case (Inl e)
    with True show ?thesis by (simp add: findCandidatePorts_def)
  next
    case conns: (Inr conns)
    show ?thesis
    proof (cases "getSockets (procSockets h)")
      case (Inl e)
      with True conns show ?thesis by (simp add: findCandidatePorts_def)
    next
      case (Inr sockets)
      with True conns show ?thesis
        using forEach_push_returns_iff [of "socketMap_of sockets" "processMap_of (processes h)" "[]"
            "filter (\<lambda>c. socketMap_of sockets (key_of (conn_socket c)) \<noteq> None) conns"]
        by (auto simp: findCandidatePorts_def Let_def)
    qed
  qed
qed

lemma listeningRecords_throws_without_local_address:
  "listeningRecords [''st inode'' @ [LF] @ ''0A 12345''] = Inl TypeError"
  by (simp add: js_defs table_defs)

subsection \<open>Properties of the service\<close>

text \<open>
  C1: with \<^verbatim>\<open>isLinux\<close> true, well-formed connection tables and an empty output of the
  \<^verbatim>\<open>ls | grep\<close> command, \<^verbatim>\<open>$findCandidatePorts\<close> throws a \<^verbatim>\<open>TypeError\<close> instead of
  returning a list.
\<close>

theorem findCandidatePorts_throws_without_sockets:
  "findCandidatePorts host_no_sockets = Inl TypeError"
  by (simp add: host_no_sockets_def loadListeningPorts_A findCandidatePorts_def getSockets_def
      to_socket_def match_socket_at_def js_defs)

text \<open>
  C2: a listening record whose socket is owned by a process that is not in the process
  inventory makes \<^verbatim>\<open>$findCandidatePorts\<close> throw a \<^verbatim>\<open>TypeError\<close>; the record is not
  dropped.
\<close>

theorem findCandidatePorts_throws_without_process:
  "findCandidatePorts host_vanished = Inl TypeError"
  by (simp add: host_vanished_def loadListeningPorts_A getSockets_A host_defs httpserver_def)

text \<open>
  C3: the candidates returned have pairwise different port numbers, also as keys of a
  \<^verbatim>\<open>Map\<close> (\<^verbatim>\<open>NaN\<close> and zero occur at most once). When several listening records have the same port number and
  the last of them, in the order of the IPv4 table followed by the IPv6 table, has an
  owning process whose command line is not excluded, the result has exactly one entry
  with that port number.
\<close>

theorem no_duplicate_ports:
  assumes "findCandidatePorts h = Inr ps"
  shows "distinct (map port ps) \<and> distinct (map (\<lambda>e. key_of (port e)) ps) \<and>
    (isLinux h \<and> listeningRecords [tcp h, tcp6 h] = Inr (pre @ r # post)
       \<and> (\<forall>x \<in> set post. key_of (conn_port x) \<noteq> key_of (conn_port r))
       \<and> getSockets (procSockets h) = Inr sockets
       \<and> resolved_command (socketMap_of sockets) (processMap_of (processes h)) r = Some command
       \<and> \<not> excluded command
     \<longrightarrow> length (filter (\<lambda>e. key_of (port e) = key_of (conn_port r)) ps) = 1)"
proof (intro conjI impI)
  show d: "distinct (map (\<lambda>e. key_of (port e)) ps)"
    using assms by (rule distinct_ports)
  then have "distinct (map key_of (map port ps))"
    by (simp add: o_def)
  then show "distinct (map port ps)"
    unfolding distinct_map [of key_of] by (rule conjunct1)
  assume a: "isLinux h \<and> listeningRecords [tcp h, tcp6 h] = Inr (pre @ r # post)
       \<and> (\<forall>x \<in> set post. key_of (conn_port x) \<noteq> key_of (conn_port r))
       \<and> getSockets (procSockets h) = Inr sockets
       \<and> resolved_command (socketMap_of sockets) (processMap_of (processes h)) r = Some command
       \<and> \<not> excluded command"
  then have conns: "loadListeningPorts [tcp h, tcp6 h] = Inr (dedup (pre @ r # post))"
    by (simp add: loadListeningPorts_dedup)
  from a have "r \<in> set (dedup (pre @ r # post))"
    by (intro dedup_last [of _ pre r post]) auto
  with assms a conns have "\<lparr> port = conn_port r, detail = command \<rparr> \<in> set ps"
    by (intro port_present [of h ps _ sockets r]) auto
  from distinct_count_one [OF d this] show
    "length (filter (\<lambda>e. key_of (port e) = key_of (conn_port r)) ps) = 1"
    by simp
qed

theorem no_duplicate_ports_witness:
  "findCandidatePorts host_D
      = Inr [\<lparr> port = Num False 8080, detail = ''/usr/bin/python3 -m http.server 8080'' \<rparr>]
    \<and> listeningRecords [tcp host_D, tcp6 host_D] = Inr ([conn_v4] @ conn_v6 # [])
    \<and> conn_port conn_v4 = conn_port conn_v6
    \<and> resolved_command (socketMap_of [sock_42, sock_43]) (processMap_of (processes host_D)) conn_v4
        = Some (proc_cmd myserver)
    \<and> resolved_command (socketMap_of [sock_42, sock_43]) (processMap_of (processes host_D)) conn_v6
        = Some (proc_cmd httpserver)
    \<and> length (filter (\<lambda>e. key_of (port e) = key_of (conn_port conn_v6))
         [\<lparr> port = Num False 8080, detail = ''/usr/bin/python3 -m http.server 8080'' \<rparr>]) = 1"
proof -
  have res: "findCandidatePorts host_D
      = Inr [\<lparr> port = Num False 8080, detail = ''/usr/bin/python3 -m http.server 8080'' \<rparr>]"
    by (rule findCandidatePorts_D)
  have recs: "listeningRecords [tcp host_D, tcp6 host_D] = Inr ([conn_v4] @ conn_v6 # [])"
    by (simp add: host_D_def listeningRecords_D)
  have socks: "getSockets (procSockets host_D) = Inr [sock_42, sock_43]"
    by (simp add: host_D_def getSockets_D)
  have c4: "resolved_command (socketMap_of [sock_42, sock_43]) (processMap_of (processes host_D)) conn_v4
      = Some (proc_cmd myserver)"
    by (simp add: resolved_command_def host_D_def host_defs myserver_def httpserver_def)
  have c6: "resolved_command (socketMap_of [sock_42, sock_43]) (processMap_of (processes host_D)) conn_v6
      = Some (proc_cmd httpserver)"
    by (simp add: resolved_command_def host_D_def host_defs myserver_def httpserver_def)
  have "length (filter (\<lambda>e. key_of (port e) = key_of (conn_port conn_v6))
         [\<lparr> port = Num False 8080, detail = ''/usr/bin/python3 -m http.server 8080'' \<rparr>]) = 1"
    using no_duplicate_ports [OF res, of "[conn_v4]" conn_v6 "[]" "[sock_42, sock_43]" "proc_cmd httpserver"]
      recs socks c6 excluded_httpserver
    by (simp add: host_D_def)
  with res recs c4 c6 show ?thesis by (simp add: conn_v4_def conn_v6_def)
qed

text \<open>
  C4: no candidate of the result carries a command line that matches the pattern of the
  agent's installation directory or contains \<^verbatim>\<open>out/vs/server/main.js\<close>; and for a
  connection of \<^verbatim>\<open>connections\<close> whose socket has an owner and whose owner has a process
  entry with such a command line, the port number of the connection is absent from the
  result. A command line with \<^verbatim>\<open>.vscode-server-\<close>, letters and \<^verbatim>\<open>/bin\<close> somewhere in it
  matches the pattern, and one with \<^verbatim>\<open>out/vs/server/main.js\<close> somewhere in it contains the
  script path. Scenario B, where the only listening socket belongs to the agent's server,
  gives the empty result.
\<close>

theorem self_exclusion:
  assumes "findCandidatePorts h = Inr ps"
  shows "(\<forall>e \<in> set ps. \<not> excluded (detail e)) \<and>
    (loadListeningPorts [tcp h, tcp6 h] = Inr conns
       \<and> getSockets (procSockets h) = Inr sockets
       \<and> c \<in> set conns
       \<and> resolved_command (socketMap_of sockets) (processMap_of (processes h)) c = Some command
       \<and> excluded command
     \<longrightarrow> key_of (conn_port c) \<notin> set (map (\<lambda>e. key_of (port e)) ps))
    \<and> (ls \<noteq> [] \<and> (\<forall>x \<in> set ls. is_letter x)
     \<longrightarrow> excluded (pre @ ''.vscode-server-'' @ ls @ ''/bin'' @ post))
    \<and> excluded (pre @ ''out/vs/server/main.js'' @ post)"
proof (intro conjI impI)
  show "excluded (pre @ ''.vscode-server-'' @ ls @ ''/bin'' @ post)"
    if "ls \<noteq> [] \<and> (\<forall>x \<in> set ls. is_letter x)"
    using that matches_agent_dir_literal [of ls pre post] by (simp add: excluded_def)
  show "excluded (pre @ ''out/vs/server/main.js'' @ post)"
    using contains_append [of "''out/vs/server/main.js''" pre post] by (simp add: excluded_def)
  show "\<forall>e \<in> set ps. \<not> excluded (detail e)"
  proof (cases "isLinux h")
    case False
    with assms show ?thesis by (simp add: findCandidatePorts_def)
  next
    case True
    with assms show ?thesis by (auto elim!: findCandidatePorts_Inr)
  qed
  assume "loadListeningPorts [tcp h, tcp6 h] = Inr conns
       \<and> getSockets (procSockets h) = Inr sockets
       \<and> c \<in> set conns
       \<and> resolved_command (socketMap_of sockets) (processMap_of (processes h)) c = Some command
       \<and> excluded command"
  with assms show "key_of (conn_port c) \<notin> set (map (\<lambda>e. key_of (port e)) ps)"
    by (intro port_absent [of h ps conns sockets c]) auto
qed

theorem self_exclusion_witness:
  "findCandidatePorts host_B = Inr []
    \<and> loadListeningPorts [tcp host_B, tcp6 host_B] = Inr [conn_v4]
    \<and> getSockets (procSockets host_B) = Inr [sock_42]
    \<and> resolved_command (socketMap_of [sock_42]) (processMap_of (processes host_B)) conn_v4
        = Some (proc_cmd agent)
    \<and> matches_agent_dir ''/home/user/.vscode-server-insiders/bin/0a1b2c/node''
    \<and> \<not> matches_agent_dir (proc_cmd agent)
    \<and> contains ''out/vs/server/main.js'' (proc_cmd agent)
    \<and> key_of (conn_port conn_v4) \<notin> set (map (\<lambda>e. key_of (port e)) ([] :: candidate list))"
proof -
  have res: "findCandidatePorts host_B = Inr []"
    by (rule findCandidatePorts_B)
  have conns: "loadListeningPorts [tcp host_B, tcp6 host_B] = Inr [conn_v4]"
    by (simp add: host_B_def loadListeningPorts_A)
  have socks: "getSockets (procSockets host_B) = Inr [sock_42]"
    by (simp add: host_B_def getSockets_A)
  have cmd: "resolved_command (socketMap_of [sock_42]) (processMap_of (processes host_B)) conn_v4
      = Some (proc_cmd agent)"
    by (simp add: resolved_command_def host_B_def host_defs agent_def)
  have pat: "matches_agent_dir ''/home/user/.vscode-server-insiders/bin/0a1b2c/node''"
    by (simp add: agent_dir_at_def js_defs)
  have nopat: "\<not> matches_agent_dir (proc_cmd agent)"
    by (simp add: agent_def agent_dir_at_def js_defs)
  have script: "contains ''out/vs/server/main.js'' (proc_cmd agent)"
    by (simp add: agent_def js_defs)
  have "key_of (conn_port conn_v4) \<notin> set (map (\<lambda>e. key_of (port e)) ([] :: candidate list))"
    using self_exclusion [OF res, of "[conn_v4]" "[sock_42]" conn_v4 "proc_cmd agent"]
      conns socks cmd excluded_agent
    by (simp add: host_B_def)
  with res conns socks cmd pat nopat script show ?thesis by simp
qed

text \<open>
  C5: on a platform that is not Linux, the platform the source takes to have the
  \<^verbatim>\<open>/proc\<close> file system, \<^verbatim>\<open>$findCandidatePorts\<close> returns the empty list whatever the
  rest of the host is: nothing is read or parsed, and nothing is thrown.
\<close>

theorem not_linux_empty: "\<not> isLinux h \<Longrightarrow> findCandidatePorts h = Inr []"
  by (simp add: findCandidatePorts_def)

theorem not_linux_empty_witness:
  "\<not> isLinux (host_no_sockets\<lparr>isLinux := False\<rparr>)
    \<and> findCandidatePorts (host_no_sockets\<lparr>isLinux := False\<rparr>) = Inr []"
proof -
  have "\<not> isLinux (host_no_sockets\<lparr>isLinux := False\<rparr>)" by simp
  from this not_linux_empty [OF this] show ?thesis by simp
qed

text \<open>
  C6: one line of the socket enumeration that does not have the shape
  \<^verbatim>\<open>/proc/<pid>/fd/<fd> -> socket:[<inode>]\<close> makes \<^verbatim>\<open>getSockets\<close> throw a \<^verbatim>\<open>TypeError\<close>,
  also when another line has the shape; the empty enumeration has one such line, the
  empty one.
\<close>

theorem getSockets_throws_on_other_line:
  "getSockets ls_mixed = Inl TypeError \<and> getSockets [] = Inl TypeError
     \<and> getSockets ls_A = Inr [sock_42]"
  by (simp add: ls_mixed_def ls_A_def ls_42_def ls_file_def sock_42_def getSockets_def
      to_socket_def match_socket_at_def js_defs)

text \<open>
  C7: \<^verbatim>\<open>loadConnectionTable\<close> returns one row per line after the header line of the
  trimmed text, each made from the header and its own line alone. The row of a line has
  every column whose name stands in the header (after the two removals; not empty and not
  \<^verbatim>\<open>__proto__\<close>) at a position below the number of fields of the line, so it has
  \<^verbatim>\<open>local_address\<close>, \<^verbatim>\<open>st\<close> and \<^verbatim>\<open>inode\<close> when the header names them and the line has
  at least as many fields as the header has names. A line with another number of fields
  than the header is kept: a field beyond the names of the header is stored under its
  position, and the row has no other columns than those of its fields.
\<close>

theorem connection_table_rows:
  assumes "lines = split_on LF (trim stdout)"
    and "names = header_names (hd lines)"
    and "i < length (tl lines)"
    and "vs = split_ws (trim (tl lines ! i))"
    and "row = loadConnectionTable stdout ! i"
  shows "length (loadConnectionTable stdout) = length (tl lines)
    \<and> row = reduce_row names Map.empty 0 vs
    \<and> (\<forall>j < length vs. j < length names \<and> names ! j \<noteq> [] \<and> names ! j \<noteq> ''__proto__''
          \<longrightarrow> row (names ! j) \<noteq> None)
    \<and> (\<forall>j < length vs. length names \<le> j \<longrightarrow> row (index_key j) \<noteq> None)
    \<and> (\<forall>key. row key \<noteq> None \<longrightarrow> (\<exists>j < length vs. key = column_key names j))"
proof (intro conjI allI impI)
  show "length (loadConnectionTable stdout) = length (tl lines)"
    by (simp add: assms(1) length_loadConnectionTable)
  show row: "row = reduce_row names Map.empty 0 vs"
    using assms by (simp add: nth_loadConnectionTable)
  show "row (names ! j) \<noteq> None"
    if "j < length vs" "j < length names \<and> names ! j \<noteq> [] \<and> names ! j \<noteq> ''__proto__''" for j
    using that reduce_row_dom [of j vs names 0 Map.empty]
    by (simp add: row column_key_def)
  show "row (index_key j) \<noteq> None" if "j < length vs" "length names \<le> j" for j
    using that reduce_row_dom [of j vs names 0 Map.empty]
    by (simp add: row column_key_def index_key_not_proto)
  show "\<exists>j < length vs. key = column_key names j" if "row key \<noteq> None" for key
    using that reduce_row_dom_only [of names Map.empty 0 vs key] by (simp add: row)
qed

theorem connection_table_rows_witness:
  "length (loadConnectionTable tcp_A) = 1
    \<and> length (header_names (hd (split_on LF (trim tcp_A)))) = 10
    \<and> length (split_ws (trim (tl (split_on LF (trim tcp_A)) ! 0))) = 17
    \<and> (loadConnectionTable tcp_A ! 0) ''local_address'' \<noteq> None
    \<and> (loadConnectionTable tcp_A ! 0) ''st'' \<noteq> None
    \<and> (loadConnectionTable tcp_A ! 0) ''inode'' \<noteq> None
    \<and> (loadConnectionTable tcp_A ! 0) ''16'' \<noteq> None"
proof -
  let ?lines = "split_on LF (trim tcp_A)"
  let ?names = "header_names (hd ?lines)"
  let ?vs = "split_ws (trim (tl ?lines ! 0))"
  let ?row = "loadConnectionTable tcp_A ! 0"
  have len: "length (tl ?lines) = 1"
    using arg_cong [OF fields_tcp_A, of length] by simp
  then have i: "0 < length (tl ?lines)" by simp
  have vs: "?vs = [''0:'', ''0100007F:1F90'', ''00000000:0000'', ''0A'', ''00000000:00000000'',
         ''00:00000000'', ''00000000'', ''1000'', ''0'', ''12345'', ''1'', ''0000000000000000'',
         ''100'', ''0'', ''0'', ''10'', ''0'']"
    using arg_cong [OF fields_tcp_A, of "\<lambda>xs. xs ! 0"] i by simp
  note t = connection_table_rows [OF refl refl i refl refl]
  from t have n: "length (loadConnectionTable tcp_A) = 1"
    using len by simp
  from t have named: "\<forall>j < length ?vs. j < length ?names \<and> ?names ! j \<noteq> [] \<and> ?names ! j \<noteq> ''__proto__''
          \<longrightarrow> ?row (?names ! j) \<noteq> None"
    by blast
  from t have extra: "\<forall>j < length ?vs. length ?names \<le> j \<longrightarrow> ?row (index_key j) \<noteq> None"
    by blast
  from named [rule_format, of 1] have a: "?row ''local_address'' \<noteq> None"
    by (simp add: vs names_tcp_A)
  from named [rule_format, of 3] have b: "?row ''st'' \<noteq> None"
    by (simp add: vs names_tcp_A)
  from named [rule_format, of 9] have c: "?row ''inode'' \<noteq> None"
    by (simp add: vs names_tcp_A)
  from extra [rule_format, of 16] have d: "?row ''16'' \<noteq> None"
    by (simp add: vs names_tcp_A index_key.simps digit_char_def)
  from n a b c d show ?thesis
    by (simp add: vs names_tcp_A)
qed

text \<open>
  C7, against the exclusion of rows: of a table whose header has three names and whose
  lines have four and two fields, both lines are in the output, the first with its fourth
  field under the name \<^verbatim>\<open>3\<close>, the second without the column \<^verbatim>\<open>inode\<close>.
\<close>

theorem ragged_rows_kept:
  "header_names (hd (split_on LF (trim table_ragged))) = [''local_address'', ''st'', ''inode'']
    \<and> map (\<lambda>line. length (split_ws (trim line))) (tl (split_on LF (trim table_ragged))) = [4, 2]
    \<and> length (loadConnectionTable table_ragged) = 2
    \<and> (loadConnectionTable table_ragged ! 0) ''inode'' = Some ''12345''
    \<and> (loadConnectionTable table_ragged ! 0) ''3'' = Some ''1''
    \<and> (loadConnectionTable table_ragged ! 1) ''st'' = Some ''0A''
    \<and> (loadConnectionTable table_ragged ! 1) ''inode'' = None"
  by (simp add: table_ragged_def js_defs table_defs)

text \<open>
  C8, scenario A: a row of the connection table in state \<^verbatim>\<open>0A\<close> with local port
  \<^verbatim>\<open>1F90\<close> and inode 12345, a descriptor of process 42 for the socket of inode 12345, and
  process 42 with the command line \<^verbatim>\<open>/usr/bin/myserver --port 8080\<close> give the one
  candidate of port 8080 with that command line as detail.
\<close>

theorem scenario_A:
  "findCandidatePorts host_A
     = Inr [\<lparr> port = Num False 8080, detail = ''/usr/bin/myserver --port 8080'' \<rparr>]"
  using excluded_myserver
  by (simp add: host_A_def loadListeningPorts_A getSockets_A host_defs excluded_def)
     (simp add: myserver_def)

text \<open>
  C9: the names of the columns are the words of the header line of the same text, without
  \<^verbatim>\<open>rx_queue\<close> and \<^verbatim>\<open>tm->when\<close>, and the field at a position of a line is stored under
  the name at that position, wherever the header has it (provided no later field of the
  line is stored under the same name). So the row depends on the pairs of name and value
  only: two headers that name the same columns in different orders give the same row.
\<close>

theorem header_driven_alignment:
  assumes "lines = split_on LF (trim stdout)"
    and "names = filter (\<lambda>name. name \<noteq> ''rx_queue'' \<and> name \<noteq> ''tm->when'')
                  (split_ws (trim (hd lines)))"
    and "i < length (tl lines)"
    and "vs = split_ws (trim (tl lines ! i))"
    and "j < length vs" and "j < length names"
    and "names ! j \<noteq> []" and "names ! j \<noteq> ''__proto__''"
    and "\<forall>k. j < k \<and> k < length vs \<longrightarrow> column_key names k \<noteq> names ! j"
  shows "loadConnectionTable stdout ! i = reduce_row names Map.empty 0 vs
    \<and> (loadConnectionTable stdout ! i) (names ! j) = Some (vs ! j)
    \<and> ''rx_queue'' \<notin> set names \<and> ''tm->when'' \<notin> set names
    \<and> (distinct ns \<and> [] \<notin> set ns \<and> ''__proto__'' \<notin> set ns \<and> length ws = length ns
        \<and> distinct ns' \<and> length ws' = length ns' \<and> set (zip ns' ws') = set (zip ns ws)
       \<longrightarrow> reduce_row ns' Map.empty 0 ws' = reduce_row ns Map.empty 0 ws)"
proof (intro conjI impI)
  show row: "loadConnectionTable stdout ! i = reduce_row names Map.empty 0 vs"
    using assms(1-4) by (simp add: nth_loadConnectionTable header_names_def)
  have "reduce_row names Map.empty 0 vs (names ! j) = Some (vs ! j)"
  proof (rule reduce_row_value)
    show "j < length vs" by fact
    show "column_key names (0 + j) = names ! j"
      using assms(6,7) by (simp add: column_key_def)
    show "names ! j \<noteq> ''__proto__''" by fact
    show "\<forall>k. j < k \<and> k < length vs \<longrightarrow> column_key names (0 + k) \<noteq> names ! j"
      using assms(9) by simp
  qed
  then show "(loadConnectionTable stdout ! i) (names ! j) = Some (vs ! j)"
    by (simp add: row)
  show "''rx_queue'' \<notin> set names" "''tm->when'' \<notin> set names"
    by (simp_all add: assms(2))
  assume "distinct ns \<and> [] \<notin> set ns \<and> ''__proto__'' \<notin> set ns \<and> length ws = length ns
        \<and> distinct ns' \<and> length ws' = length ns' \<and> set (zip ns' ws') = set (zip ns ws)"
  then show "reduce_row ns' Map.empty 0 ws' = reduce_row ns Map.empty 0 ws"
    by (intro reduce_row_reorder) auto
qed

theorem header_driven_alignment_witness:
  "(loadConnectionTable table_reordered ! 0) ''inode'' = Some ''12345''
    \<and> (loadConnectionTable table_reordered ! 0) ''st'' = Some ''0A''
    \<and> (loadConnectionTable table_reordered ! 0) ''local_address'' = Some ''0100007F:1F90''
    \<and> loadConnectionTable table_reordered ! 0
        = reduce_row [''local_address'', ''st'', ''inode''] Map.empty 0 [''0100007F:1F90'', ''0A'', ''12345'']
    \<and> listeningRecords [table_reordered] = Inr [conn_v4]"
proof -
  let ?lines = "split_on LF (trim table_reordered)"
  let ?names = "filter (\<lambda>name. name \<noteq> ''rx_queue'' \<and> name \<noteq> ''tm->when'')
     (split_ws (trim (hd ?lines)))"
  let ?vs = "split_ws (trim (tl ?lines ! 0))"
  let ?row = "loadConnectionTable table_reordered ! 0"
  have len: "length (tl ?lines) = 1"
    using arg_cong [OF fields_reordered, of length] by simp
  then have i: "0 < length (tl ?lines)" by simp
  have vs: "?vs = [''12345'', ''0A'', ''0100007F:1F90'']"
    using arg_cong [OF fields_reordered, of "\<lambda>xs. xs ! 0"] i by simp
  let ?ns = "[''local_address'', ''st'', ''inode'']"
  let ?ws = "[''0100007F:1F90'', ''0A'', ''12345'']"
  have t: "?row = reduce_row ?names Map.empty 0 ?vs
      \<and> ?row (?names ! j) = Some (?vs ! j)
      \<and> ''rx_queue'' \<notin> set ?names \<and> ''tm->when'' \<notin> set ?names
      \<and> (distinct ?ns \<and> [] \<notin> set ?ns \<and> ''__proto__'' \<notin> set ?ns \<and> length ?ws = length ?ns
            \<and> distinct ?names \<and> length ?vs = length ?names
            \<and> set (zip ?names ?vs) = set (zip ?ns ?ws)
          \<longrightarrow> reduce_row ?names Map.empty 0 ?vs = reduce_row ?ns Map.empty 0 ?ws)"
    if "j < 3" for j
  proof (rule header_driven_alignment [OF refl refl i refl])
    show "j < length ?vs" using that by (simp add: vs)
    show "j < length ?names" using that by (simp add: names_reordered)
    have "j = 0 \<or> j = 1 \<or> j = 2" using that by arith
    then show "?names ! j \<noteq> []" "?names ! j \<noteq> ''__proto__''"
      by (auto simp: names_reordered)
    show "\<forall>k. j < k \<and> k < length ?vs \<longrightarrow> column_key ?names k \<noteq> ?names ! j"
    proof (intro allI impI)
      fix k assume "j < k \<and> k < length ?vs"
      with that have "(j = 0 \<and> k = 1) \<or> (j = 0 \<and> k = 2) \<or> (j = 1 \<and> k = 2)"
        by (simp add: vs) arith
      then show "column_key ?names k \<noteq> ?names ! j"
        by (auto simp: names_reordered column_key_def)
    qed
  qed
  have pairs: "distinct ?ns \<and> [] \<notin> set ?ns \<and> ''__proto__'' \<notin> set ?ns \<and> length ?ws = length ?ns
      \<and> distinct ?names \<and> length ?vs = length ?names
      \<and> set (zip ?names ?vs) = set (zip ?ns ?ws)"
    by (auto simp: names_reordered vs)
  have lt: "(0::nat) < 3" "(1::nat) < 3" "(2::nat) < 3" by simp_all
  from t [OF lt(1)] have "?row (?names ! 0) = Some (?vs ! 0)" by blast
  then have a: "?row ''inode'' = Some ''12345''"
    by (simp add: names_reordered vs)
  from t [OF lt(2)] have "?row (?names ! 1) = Some (?vs ! 1)" by blast
  then have b: "?row ''st'' = Some ''0A''"
    by (simp add: names_reordered vs)
  from t [OF lt(3)] have "?row (?names ! 2) = Some (?vs ! 2)" by blast
  then have c: "?row ''local_address'' = Some ''0100007F:1F90''"
    by (simp add: names_reordered vs)
  from t [OF lt(1)] have r: "?row = reduce_row ?names Map.empty 0 ?vs" by blast
  from t [OF lt(1)] pairs have "reduce_row ?names Map.empty 0 ?vs = reduce_row ?ns Map.empty 0 ?ws"
    by blast
  with r have d: "?row = reduce_row ?ns Map.empty 0 ?ws"
    by (rule trans)
  from a b c d listeningRecords_reordered show ?thesis
    by (intro conjI)
qed

text \<open>
  C10: the \<^verbatim>\<open>Map\<close> of \<^verbatim>\<open>loadListeningPorts\<close> keeps, of the listening records with one
  port number, the last one (the records of the IPv4 table first, then those of the IPv6
  table), before any owner is looked up.
  So when the last record with a port number has no owner in the socket map, or its
  owner's command line is excluded, that port number is absent from the result, whatever
  the earlier records with that port number are.
\<close>

theorem dedup_before_attribution:
  assumes "findCandidatePorts h = Inr ps"
    and "listeningRecords [tcp h] = Inr ipv4" and "listeningRecords [tcp6 h] = Inr ipv6"
    and "ipv4 @ ipv6 = pre @ r # post"
    and "\<forall>x \<in> set post. key_of (conn_port x) \<noteq> key_of (conn_port r)"
    and "getSockets (procSockets h) = Inr sockets"
    and "socketMap_of sockets (key_of (conn_socket r)) = None \<or>
       (\<exists>command. resolved_command (socketMap_of sockets) (processMap_of (processes h)) r
            = Some command \<and> excluded command)"
  shows "(\<exists>conns. loadListeningPorts [tcp h, tcp6 h] = Inr conns \<and> r \<in> set conns
            \<and> (\<forall>c \<in> set conns. key_of (conn_port c) = key_of (conn_port r) \<longrightarrow> c = r))
     \<and> key_of (conn_port r) \<notin> set (map (\<lambda>e. key_of (port e)) ps)"
proof -
  have "listeningRecords [tcp h, tcp6 h] = Inr (pre @ r # post)"
    using listeningRecords_tables [OF assms(2,3)] assms(4) by simp
  then have conns: "loadListeningPorts [tcp h, tcp6 h] = Inr (dedup (pre @ r # post))"
    by (simp add: loadListeningPorts_dedup)
  have r: "r \<in> set (dedup (pre @ r # post))"
    using assms(5) by (intro dedup_last [of _ pre r post]) auto
  have "inj_on (\<lambda>c. key_of (conn_port c)) (set (dedup (pre @ r # post)))"
    using distinct_dedup [of "pre @ r # post"] by (simp add: distinct_map)
  with r have uniq: "\<forall>c \<in> set (dedup (pre @ r # post)).
      key_of (conn_port c) = key_of (conn_port r) \<longrightarrow> c = r"
    by (auto dest: inj_onD)
  have bad: "socketMap_of sockets (key_of (conn_socket r)) = None \<or>
      excluded (the (resolved_command (socketMap_of sockets) (processMap_of (processes h)) r))"
    using assms(7) by auto
  have "key_of (conn_port r) \<notin> set (map (\<lambda>e. key_of (port e)) ps)"
    using assms(1) conns assms(6) r bad by (rule port_absent)
  with conns r uniq show ?thesis by blast
qed

theorem dedup_before_attribution_witness:
  "findCandidatePorts host_shadow = Inr []
    \<and> listeningRecords [tcp host_shadow] = Inr [conn_v4]
    \<and> listeningRecords [tcp6 host_shadow] = Inr [conn_v6]
    \<and> conn_port conn_v4 = conn_port conn_v6
    \<and> getSockets (procSockets host_shadow) = Inr [sock_42]
    \<and> resolved_command (socketMap_of [sock_42]) (processMap_of (processes host_shadow)) conn_v4
        = Some (proc_cmd myserver)
    \<and> \<not> excluded (proc_cmd myserver)
    \<and> socketMap_of [sock_42] (key_of (conn_socket conn_v6)) = None
    \<and> loadListeningPorts [tcp host_shadow, tcp6 host_shadow] = Inr [conn_v6]
    \<and> key_of (conn_port conn_v6) \<notin> set (map (\<lambda>e. key_of (port e)) ([] :: candidate list))"
proof -
  have res: "findCandidatePorts host_shadow = Inr []"
    by (simp add: host_shadow_def loadListeningPorts_D getSockets_A host_defs)
  have ipv4: "listeningRecords [tcp host_shadow] = Inr [conn_v4]"
    by (simp add: host_shadow_def listeningRecords_tcp_A)
  have ipv6: "listeningRecords [tcp6 host_shadow] = Inr [conn_v6]"
    by (simp add: host_shadow_def listeningRecords_tcp6_D)
  have recs: "[conn_v4] @ [conn_v6] = [conn_v4] @ conn_v6 # []"
    by simp
  have socks: "getSockets (procSockets host_shadow) = Inr [sock_42]"
    by (simp add: host_shadow_def getSockets_A)
  have c4: "resolved_command (socketMap_of [sock_42]) (processMap_of (processes host_shadow)) conn_v4
      = Some (proc_cmd myserver)"
    by (simp add: resolved_command_def host_shadow_def host_defs myserver_def)
  have c6: "socketMap_of [sock_42] (key_of (conn_socket conn_v6)) = None"
    by (simp add: host_defs)
  have conns: "loadListeningPorts [tcp host_shadow, tcp6 host_shadow] = Inr [conn_v6]"
    by (simp add: host_shadow_def loadListeningPorts_D)
  have post: "\<forall>x \<in> set []. key_of (conn_port x) \<noteq> key_of (conn_port conn_v6)"
    by simp
  have bad: "socketMap_of [sock_42] (key_of (conn_socket conn_v6)) = None \<or>
      (\<exists>command. resolved_command (socketMap_of [sock_42]) (processMap_of (processes host_shadow)) conn_v6
           = Some command \<and> excluded command)"
    using c6 by simp
  have "key_of (conn_port conn_v6) \<notin> set (map (\<lambda>e. key_of (port e)) ([] :: candidate list))"
    using dedup_before_attribution [OF res ipv4 ipv6 recs post socks bad] by (rule conjunct2)
  with res ipv4 ipv6 socks c4 c6 conns excluded_myserver show ?thesis
    by (simp add: conn_v4_def conn_v6_def)
qed

end
